theory Spec2Isabelle
  imports Complex_Main "HOL-Library.Char_ord" "HOL-Library.List_Lexorder"
begin

section \<open>Room catalog and adjacency rules (inference.py, module constants)\<close>

text \<open>
  Room names are Python strings, compared lexicographically by code point. They are
  modelled as \<open>string\<close> with the lexicographic order on characters, which is that order
  on ASCII names (all names of the program are ASCII) and on UTF-8 encodings in general.
  Python integers are \<open>int\<close>. Exceptions are values of \<open>error\<close>: \<open>ValueError\<close> is
  the one \<open>raise\<close> of the module, \<open>IndexError\<close> is what indexing a tensor out of range
  raises.
\<close>

datatype error = ValueError string | IndexError

definition ROOM_CLASS :: "(string \<times> int) list" where
  "ROOM_CLASS =
    [(''living_room'', 1), (''kitchen'', 2), (''bedroom'', 3), (''bathroom'', 4),
     (''balcony'', 5), (''entrance'', 6), (''dining room'', 7), (''study room'', 8),
     (''storage'', 10), (''front door'', 15), (''unknown'', 16), (''interior_door'', 17)]"

definition room_class :: "string \<Rightarrow> int option" where
  "room_class = map_of ROOM_CLASS"

definition REAL_ADJACENCY_RULES :: "((string \<times> string) \<times> int) list" where
  "REAL_ADJACENCY_RULES =
    [((''living_room'', ''bedroom''), 1),
     ((''living_room'', ''kitchen''), 1),
     ((''living_room'', ''bathroom''), 1),
     ((''living_room'', ''balcony''), 1),
     ((''bedroom'', ''balcony''), - 1),
     ((''kitchen'', ''balcony''), - 1),
     ((''bedroom'', ''bathroom''), - 1),
     ((''kitchen'', ''bathroom''), - 1),
     ((''bedroom'', ''bedroom''), - 1),
     ((''balcony'', ''balcony''), - 1),
     ((''living_room'', ''dining room''), 1),
     ((''kitchen'', ''dining room''), 1),
     ((''living_room'', ''entrance''), 1),
     ((''living_room'', ''study room''), 1),
     ((''bedroom'', ''study room''), - 1),
     ((''kitchen'', ''entrance''), - 1),
     ((''bathroom'', ''entrance''), - 1),
     ((''bathroom'', ''kitchen''), - 1),
     ((''bathroom'', ''dining room''), - 1)]"

text \<open>
  The keys of the dictionary literal are pairwise distinct, so the first match of
  \<open>map_of\<close> is the dictionary's entry.
\<close>

definition adjacency_rules :: "string \<times> string \<Rightarrow> int option" where
  "adjacency_rules = map_of REAL_ADJACENCY_RULES"

section \<open>Pairwise classification\<close>

text \<open>\<open>FixedHouseGANInference._get_default_adjacency\<close>, branch by branch.\<close>

definition get_default_adjacency :: "string \<Rightarrow> string \<Rightarrow> int" where
  "get_default_adjacency room1 room2 =
    (if ''living_room'' \<in> set [room1, room2] then 1
     else if room1 \<in> set [''kitchen'', ''bathroom''] \<and> room2 \<in> set [''kitchen'', ''bathroom'']
       then - 1
     else if room1 \<in> set [''bedroom'', ''study room''] \<and> room2 \<in> set [''kitchen'', ''bathroom'']
       then - 1
     else if room1 = room2 then - 1
     else - 1)"

text \<open>
  The body of the inner loop of \<open>create_data_driven_graph\<close> that computes \<open>adj_type\<close>:
  the key is \<open>tuple(sorted([room1_name, room2_name]))\<close>, looked up in the rule table,
  with \<open>_get_default_adjacency\<close> as the fallback.
\<close>

definition adj_key :: "string \<Rightarrow> string \<Rightarrow> string \<times> string" where
  "adj_key room1_name room2_name =
    (let s = sort [room1_name, room2_name] in (s ! 0, s ! 1))"

definition adj_type :: "string \<Rightarrow> string \<Rightarrow> int" where
  "adj_type room1_name room2_name =
    (case adjacency_rules (adj_key room1_name room2_name) of
       Some r \<Rightarrow> r
     | None \<Rightarrow> get_default_adjacency room1_name room2_name)"

section \<open>Graph construction (\<open>create_data_driven_graph\<close>)\<close>

text \<open>
  The first loop resolves names to 0-based type ids and prints one line per unknown
  name. The printed lines are returned next to the ids. (The count validation that
  precedes the loop only prints and is not part of the model.)
\<close>

definition skip_warning :: "string \<Rightarrow> string" where
  "skip_warning room_name =
    ''Warning: Unknown room type '' @ [CHR 0x27] @ room_name @ [CHR 0x27] @ '', skipping...''"

definition resolve_step :: "string \<Rightarrow> int list \<times> string list \<Rightarrow> int list \<times> string list" where
  "resolve_step room_name acc =
    (case room_class room_name of
       Some c \<Rightarrow> (fst acc @ [c - 1], snd acc)
     | None \<Rightarrow> (fst acc, snd acc @ [skip_warning room_name]))"

definition resolve_rooms :: "string list \<Rightarrow> int list \<times> string list" where
  "resolve_rooms room_types = fold resolve_step room_types ([], [])"

text \<open>
  The node tensor: \<open>torch.zeros(num_rooms, 18)\<close>, then \<open>nodes[i, room_id] = 1.0\<close> for
  each enumerated id. Every resolved id lies in \<open>0..16\<close> (lemma \<open>room_class_range\<close>
  below), so the column index is always in range.
\<close>

definition node_tensor :: "int list \<Rightarrow> real list list" where
  "node_tensor room_ids =
    fold (\<lambda>(i, room_id) nodes. nodes[i := (nodes ! i)[nat room_id := 1]])
      (enumerate 0 room_ids)
      (replicate (length room_ids) (replicate 18 0))"

text \<open>
  The edge loops. The names are read from the request list \<open>room_types\<close> at the node
  indices \<open>i\<close> and \<open>j\<close>, as the source does; both are below \<open>num_rooms\<close>, which never
  exceeds the length of the request (lemma \<open>resolve_rooms_length_le\<close>).
\<close>

definition edge_pair :: "string list \<Rightarrow> nat \<Rightarrow> nat \<Rightarrow> (nat \<times> int \<times> nat) list" where
  "edge_pair room_types i j =
    (let room1_name = room_types ! i;
         room2_name = room_types ! j;
         adj = adj_type room1_name room2_name
     in [(i, adj, j), (j, adj, i)])"

definition edges_loop :: "string list \<Rightarrow> nat \<Rightarrow> (nat \<times> int \<times> nat) list" where
  "edges_loop room_types num_rooms =
    fold (\<lambda>i edges. fold (\<lambda>j edges. edges @ edge_pair room_types i j) [i + 1 ..< num_rooms] edges)
      [0 ..< num_rooms] []"

type_synonym graph = "real list list \<times> (nat \<times> int \<times> nat) list \<times> int list"

definition create_data_driven_graph :: "string list \<Rightarrow> string list \<times> (error + graph)" where
  "create_data_driven_graph room_types =
    (let (room_ids, printed) = resolve_rooms room_types in
     if room_ids = [] then (printed, Inl (ValueError ''No valid room types provided''))
     else
       let num_rooms = length room_ids;
           nodes = node_tensor room_ids;
           edges = edges_loop room_types num_rooms;
           edges = (if edges \<noteq> [] then edges else [(0, 1, 0)])
       in (printed, Inr (nodes, edges, room_ids)))"

text \<open>
  Vocabulary for the statements below: a request entry is known when it is a key of
  \<open>ROOM_CLASS\<close>; its type id is the 0-based id that the resolving loop appends.
\<close>

definition is_known :: "string \<Rightarrow> bool" where
  "is_known room_name = (room_class room_name \<noteq> None)"

definition type_id :: "string \<Rightarrow> int" where
  "type_id room_name = the (room_class room_name) - 1"

section \<open>Mask encoding (\<open>fix_nodes\<close>, \<open>_init_input\<close>)\<close>

text \<open>
  A mask is a 2-D grid of floats; the only float values the code writes are the constants
  \<open>-1.0\<close>, \<open>0.0\<close> and \<open>1.0\<close>, and no arithmetic is done on masks here, so grid entries
  are modelled as \<open>real\<close>. \<open>fill v m\<close> is the grid of the shape of \<open>m\<close> with every
  entry \<open>v\<close>: what assigning the scalar \<open>v\<close> to one row of a tensor does.
\<close>

type_synonym mask = "real list list"

definition fill :: "real \<Rightarrow> mask \<Rightarrow> mask" where
  "fill v m = map (map (\<lambda>_. v)) m"

text \<open>
  \<open>t[idx.long()] = v\<close> for a 1-D index tensor \<open>idx\<close>: an index outside \<open>-n .. n-1\<close>
  raises \<open>IndexError\<close>, a negative index counts from the end, and each addressed row
  is overwritten (\<open>f\<close> is the overwriting of one row).
\<close>

definition index_put :: "'a list \<Rightarrow> int list \<Rightarrow> ('a \<Rightarrow> 'a) \<Rightarrow> error + 'a list" where
  "index_put t idx f =
    (let n = int (length t) in
     if list_ex (\<lambda>i. i < - n \<or> n \<le> i) idx then Inl IndexError
     else Inr (map (\<lambda>k. if int k \<in> set (map (\<lambda>i. if i < 0 then i + n else i) idx)
                           then f (t ! k) else t ! k)
                 [0 ..< length t]))"

text \<open>
  \<open>fix_nodes\<close>: the result has one entry per node, each the list of its two channels
  (\<open>unsqueeze(1)\<close> followed by \<open>torch.cat(..., 1)\<close>).
\<close>

definition fix_nodes :: "mask list \<Rightarrow> int list \<Rightarrow> error + mask list list" where
  "fix_nodes prev_mks ind_fixed_nodes =
    (let given_masks = prev_mks;
         ind_not_fixed_nodes =
           map int (filter (\<lambda>k. int k \<notin> set ind_fixed_nodes) [0 ..< length given_masks])
     in case index_put given_masks ind_not_fixed_nodes (fill (- 1)) of
          Inl e \<Rightarrow> Inl e
        | Inr given_masks \<Rightarrow>
            (let inds_masks = map (fill 0) given_masks in
             case index_put inds_masks ind_not_fixed_nodes (fill 0) of
               Inl e \<Rightarrow> Inl e
             | Inr inds_masks \<Rightarrow>
                 (case index_put inds_masks ind_fixed_nodes (fill 1) of
                    Inl e \<Rightarrow> Inl e
                  | Inr inds_masks \<Rightarrow> Inr (map2 (\<lambda>g i. [g, i]) given_masks inds_masks))))"

text \<open>
  The refinement state is the dictionary with the keys \<open>masks\<close> (possibly \<open>None\<close>) and
  \<open>fixed_nodes\<close>.
\<close>

record state =
  masks :: "mask list option"
  fixed_nodes :: "int list"

text \<open>
  \<open>_init_input\<close>. The noise \<open>z\<close>, which the source draws with \<open>torch.randn\<close>, is
  passed in as an argument.
\<close>

definition init_input ::
  "'z \<Rightarrow> real list list \<times> (nat \<times> int \<times> nat) list \<Rightarrow> state \<Rightarrow> nat \<Rightarrow>
   error + ('z \<times> mask list list \<times> real list list \<times> (nat \<times> int \<times> nat) list)" where
  "init_input z graph prev_state mask_size =
    (let (given_nds, given_eds) = graph;
         prev_mks =
           (case masks prev_state of
              None \<Rightarrow> replicate (length given_nds) (replicate mask_size (replicate mask_size (- 1)))
            | Some m \<Rightarrow> m)
     in case fix_nodes prev_mks (fixed_nodes prev_state) of
          Inl e \<Rightarrow> Inl e
        | Inr given_masks_in \<Rightarrow> Inr (z, given_masks_in, given_nds, given_eds))"

section \<open>Incremental refinement (\<open>_infer\<close>, \<open>generate_floorplan\<close>)\<close>

text \<open>
  The pretrained generator is not part of the program text; it is a parameter of the
  model, a function of the noise, the conditioning tensor, the node features and the
  edge list that returns the masks.
\<close>

type_synonym 'z generator =
  "'z \<Rightarrow> mask list list \<Rightarrow> real list list \<Rightarrow> (nat \<times> int \<times> nat) list \<Rightarrow> mask list"

definition infer ::
  "'z generator \<Rightarrow> 'z \<Rightarrow> real list list \<times> (nat \<times> int \<times> nat) list \<Rightarrow> state \<Rightarrow>
   error + mask list" where
  "infer model z graph prev_state =
    (case init_input z graph prev_state 64 of
       Inl e \<Rightarrow> Inl e
     | Inr (z, given_masks_in, given_nds, given_eds) \<Rightarrow>
         Inr (model z given_masks_in given_nds given_eds))"

text \<open>
  \<open>sorted(list(set(real_nodes)))\<close> is the ascending list of the distinct ids;
  \<open>selected_types\<close> are its prefixes of length \<open>1 .. min(10, len(_types))\<close>.
\<close>

definition selected_types :: "int list \<Rightarrow> int list list" where
  "selected_types real_nodes =
    (let types = sort (remdups real_nodes)
     in map (\<lambda>k. take (k + 1) types) [0 ..< min 10 (length types)])"

text \<open>
  \<open>_fixed_nds\<close>: the concatenation of \<open>np.where(real_nodes == _t)[0]\<close> over the types
  of the subset.
\<close>

definition fixed_nds :: "int list \<Rightarrow> int list \<Rightarrow> int list" where
  "fixed_nds real_nodes types_subset =
    (if length types_subset > 0
     then concat (map (\<lambda>t. map int (filter (\<lambda>i. real_nodes ! i = t) [0 ..< length real_nodes]))
            types_subset)
     else [])"

text \<open>
  The refinement loop over \<open>enumerate(selected_types)\<close>. Next to the current masks it
  carries the list of the states handed to \<open>_infer\<close> so far, which is how the sequence
  of model invocations of one run is observed. \<open>zs k\<close> is the noise drawn at the
  invocation number \<open>k\<close> of the run (the warm-up is number 0).
\<close>

fun refine_loop ::
  "'z generator \<Rightarrow> (nat \<Rightarrow> 'z) \<Rightarrow> real list list \<times> (nat \<times> int \<times> nat) list \<Rightarrow> int list \<Rightarrow>
   (nat \<times> int list) list \<Rightarrow> mask list \<times> state list \<Rightarrow> error + (mask list \<times> state list)" where
  "refine_loop model zs graph real_nodes [] (cur_masks, calls) = Inr (cur_masks, calls)"
| "refine_loop model zs graph real_nodes ((iter, types_subset) # rest) (cur_masks, calls) =
    (let st = \<lparr>masks = Some cur_masks, fixed_nodes = fixed_nds real_nodes types_subset\<rparr>
     in case infer model (zs (Suc iter)) graph st of
          Inl e \<Rightarrow> Inl e
        | Inr new_masks \<Rightarrow> refine_loop model zs graph real_nodes rest (new_masks, calls @ [st]))"

text \<open>
  \<open>generate_floorplan\<close> without the rendering of the final image: it returns the final
  masks, \<open>room_ids\<close> and \<open>real_nodes\<close>, and the states of all model invocations in
  order.
\<close>

definition generate_floorplan ::
  "'z generator \<Rightarrow> (nat \<Rightarrow> 'z) \<Rightarrow> string list \<Rightarrow>
   error + ((mask list \<times> int list \<times> int list) \<times> state list)" where
  "generate_floorplan model zs room_types =
    (case snd (create_data_driven_graph room_types) of
       Inl e \<Rightarrow> Inl e
     | Inr (nodes, edges, room_ids) \<Rightarrow>
         (let graph = (nodes, edges);
              real_nodes = room_ids;
              st = \<lparr>masks = None, fixed_nodes = []\<rparr>
          in case infer model (zs 0) graph st of
               Inl e \<Rightarrow> Inl e
             | Inr first_masks \<Rightarrow>
                 (case refine_loop model zs graph real_nodes
                         (enumerate 0 (selected_types real_nodes)) (first_masks, [st]) of
                    Inl e \<Rightarrow> Inl e
                  | Inr (final_masks, calls) \<Rightarrow>
                      Inr ((final_masks, room_ids, real_nodes), calls))))"

text \<open>
  A generator and a noise source for concrete runs: the generator answers with one
  blank 1-by-1 mask per node, the noise is constant.
\<close>

definition blank_model :: "unit generator" where
  "blank_model z given_masks_in given_nds given_eds = map (\<lambda>_. [[0]]) given_nds"

definition no_noise :: "nat \<Rightarrow> unit" where
  "no_noise k = ()"

text \<open>
  The contract of the generator that the controller relies on: it returns one mask per
  node.
\<close>

definition model_ok :: "'z generator \<Rightarrow> bool" where
  "model_ok model = (\<forall>z c nds eds. length (model z c nds eds) = length nds)"

text \<open>
  The fixed-node index lists of the model invocations of a run, in order (empty when the
  run raised).
\<close>

definition fixed_trace ::
  "error + ((mask list \<times> int list \<times> int list) \<times> state list) \<Rightarrow> int list list" where
  "fixed_trace r = (case r of Inl e \<Rightarrow> [] | Inr (res, calls) \<Rightarrow> map fixed_nodes calls)"

text \<open>
  Two readings of "an edge is Adjacent exactly when one of its endpoints is a living
  room" on a returned graph (\<open>living_room\<close> has the 0-based type id 0): for every
  edge, and for every edge but those between a kitchen (type id 1) and a dining room
  (type id 6), the one pair for which the rule table and the classification differ.
\<close>

definition adjacent_iff_living_room :: "graph \<Rightarrow> bool" where
  "adjacent_iff_living_room g =
    (case g of (nodes, edges, room_ids) \<Rightarrow>
       list_all (\<lambda>(i, r, j). (r = 1) = (room_ids ! i = 0 \<or> room_ids ! j = 0)) edges)"

definition adjacent_iff_living_room_elsewhere :: "graph \<Rightarrow> bool" where
  "adjacent_iff_living_room_elsewhere g =
    (case g of (nodes, edges, room_ids) \<Rightarrow>
       list_all (\<lambda>(i, r, j).
           (room_ids ! i = 1 \<and> room_ids ! j = 6) \<or> (room_ids ! i = 6 \<and> room_ids ! j = 1)
           \<or> ((r = 1) = (room_ids ! i = 0 \<or> room_ids ! j = 0) \<and> (r = 1 \<or> r = - 1)))
         edges)"

definition kitchen_with_dining_room :: "string \<Rightarrow> string \<Rightarrow> bool" where
  "kitchen_with_dining_room a b =
    ((a = ''kitchen'' \<and> b = ''dining room'') \<or> (a = ''dining room'' \<and> b = ''kitchen''))"

text \<open>Requests used as concrete inputs.\<close>

definition scenario_a :: "string list" where
  "scenario_a = [''living_room'', ''bedroom'', ''bedroom'', ''kitchen'', ''bathroom'']"

definition eleven_rooms :: "string list" where
  "eleven_rooms =
    [''living_room'', ''kitchen'', ''bedroom'', ''bathroom'', ''balcony'', ''entrance'',
     ''dining room'', ''study room'', ''storage'', ''front door'', ''unknown'']"

section \<open>Properties\<close>

subsection \<open>The loops of the graph construction in closed form\<close>


lemma fold_resolve_step:
  "fold resolve_step rt (ids, out) =
     (ids @ map type_id (filter is_known rt),
      out @ map skip_warning (filter (\<lambda>n. \<not> is_known n) rt))"
  by (induction rt arbitrary: ids out)
     (auto simp: resolve_step_def is_known_def type_id_def split: option.splits)

lemma resolve_rooms_eq:
  "resolve_rooms rt =
     (map type_id (filter is_known rt), map skip_warning (filter (\<lambda>n. \<not> is_known n) rt))"
  by (simp add: resolve_rooms_def fold_resolve_step)

lemma resolve_rooms_length_le: "length (fst (resolve_rooms rt)) \<le> length rt"
  by (simp add: resolve_rooms_eq)

lemma room_class_range: "room_class n = Some c \<Longrightarrow> 1 \<le> c \<and> c \<le> 17"
  by (auto simp: room_class_def ROOM_CLASS_def split: if_splits)

lemma type_id_range: "is_known n \<Longrightarrow> 0 \<le> type_id n \<and> type_id n < 17"
  using room_class_range[of n] by (auto simp: is_known_def type_id_def)

lemma node_fold_length:
  "length (fold (\<lambda>(i, room_id) nodes. nodes[i := (nodes ! i)[nat room_id := 1]])
     (enumerate k ids) ns) = length ns"
  by (induction ids arbitrary: k ns) auto

lemma node_fold_nth:
  "i < length ns \<Longrightarrow>
   fold (\<lambda>(i, room_id) nodes. nodes[i := (nodes ! i)[nat room_id := (1::real)]])
     (enumerate k ids) ns ! i =
     (if k \<le> i \<and> i < k + length ids then (ns ! i)[nat (ids ! (i - k)) := 1] else ns ! i)"
proof (induction ids arbitrary: k ns)
  case Nil
  then show ?case by auto
next
  case (Cons x xs)
  show ?case
  proof (cases "i = k")
    case True
    then show ?thesis using Cons by (simp add: nth_list_update)
  next
    case False
    then show ?thesis using Cons by (auto simp: nth_Cons' nth_list_update)
  qed
qed

lemma node_tensor_eq:
  "node_tensor ids = map (\<lambda>rid. (replicate 18 0)[nat rid := 1]) ids"
proof (rule nth_equalityI)
  show "length (node_tensor ids) = length (map (\<lambda>rid. (replicate 18 0)[nat rid := 1]) ids)"
    unfolding node_tensor_def node_fold_length by simp
next
  fix i assume "i < length (node_tensor ids)"
  then have i: "i < length ids"
    unfolding node_tensor_def node_fold_length by simp
  then show "node_tensor ids ! i = map (\<lambda>rid. (replicate 18 0)[nat rid := 1]) ids ! i"
    unfolding node_tensor_def by (simp add: node_fold_nth)
qed

lemma fold_append_concat:
  "fold (\<lambda>x acc. acc @ f x) xs acc = acc @ concat (map f xs)"
  by (induction xs arbitrary: acc) auto

lemma edges_loop_concat:
  "edges_loop rt n =
     concat (map (\<lambda>i. concat (map (\<lambda>j. edge_pair rt i j) [i + 1 ..< n])) [0 ..< n])"
proof -
  have inner: "\<And>i edges. fold (\<lambda>j edges. edges @ edge_pair rt i j) [i + 1 ..< n] edges
      = edges @ concat (map (\<lambda>j. edge_pair rt i j) [i + 1 ..< n])"
    by (rule fold_append_concat)
  show ?thesis
    unfolding edges_loop_def inner
    using fold_append_concat[of "\<lambda>i. concat (map (\<lambda>j. edge_pair rt i j) [i + 1 ..< n])" "[0 ..< n]" "[]"]
    by simp
qed

lemma in_concat_mapI: "x \<in> set xs \<Longrightarrow> y \<in> set (f x) \<Longrightarrow> y \<in> set (concat (map f xs))"
  by auto

lemma edges_loop_set:
  "(a, r, b) \<in> set (edges_loop rt n) \<longleftrightarrow>
     a < n \<and> b < n \<and> a \<noteq> b \<and> r = adj_type (rt ! min a b) (rt ! max a b)"
proof
  assume "(a, r, b) \<in> set (edges_loop rt n)"
  then show "a < n \<and> b < n \<and> a \<noteq> b \<and> r = adj_type (rt ! min a b) (rt ! max a b)"
    unfolding edges_loop_concat edge_pair_def Let_def
    by (auto simp: min_def max_def)
next
  assume h: "a < n \<and> b < n \<and> a \<noteq> b \<and> r = adj_type (rt ! min a b) (rt ! max a b)"
  then have i: "min a b \<in> set [0 ..< n]" and j: "max a b \<in> set [min a b + 1 ..< n]"
    and e: "(a, r, b) \<in> set (edge_pair rt (min a b) (max a b))"
    by (auto simp: edge_pair_def Let_def min_def max_def)
  have "(a, r, b) \<in> set (concat (map (\<lambda>j. edge_pair rt (min a b) j) [min a b + 1 ..< n]))"
    using in_concat_mapI[OF j, where f = "\<lambda>j. edge_pair rt (min a b) j"] e by simp
  then show "(a, r, b) \<in> set (edges_loop rt n)"
    unfolding edges_loop_concat
    using in_concat_mapI[OF i,
      where f = "\<lambda>i. concat (map (\<lambda>j. edge_pair rt i j) [i + 1 ..< n])"]
    by simp
qed

lemma distinct_concat_map:
  assumes "distinct xs"
    and "\<And>x. x \<in> set xs \<Longrightarrow> distinct (f x)"
    and "\<And>x y. x \<in> set xs \<Longrightarrow> y \<in> set xs \<Longrightarrow> x \<noteq> y \<Longrightarrow> set (f x) \<inter> set (f y) = {}"
  shows "distinct (concat (map f xs))"
  using assms by (induction xs) fastforce+

lemma edges_loop_distinct: "distinct (edges_loop rt n)"
  unfolding edges_loop_concat
proof (rule distinct_concat_map)
  show "distinct [0 ..< n]" by simp
next
  fix i assume "i \<in> set [0 ..< n]"
  show "distinct (concat (map (edge_pair rt i) [i + 1 ..< n]))"
    by (rule distinct_concat_map) (auto simp: edge_pair_def Let_def)
next
  fix i i' assume "i \<in> set [0 ..< n]" "i' \<in> set [0 ..< n]" "i \<noteq> i'"
  then show "set (concat (map (edge_pair rt i) [i + 1 ..< n])) \<inter>
             set (concat (map (edge_pair rt i') [i' + 1 ..< n])) = {}"
    by (auto simp: edge_pair_def Let_def)
qed

lemma sum_list_countdown: "sum_list (map (\<lambda>i. n - Suc i) [0 ..< n]) = n choose 2"
proof (induction n)
  case 0
  then show ?case by simp
next
  case (Suc n)
  have "[0 ..< Suc n] = 0 # map Suc [0 ..< n]"
    by (simp add: upt_conv_Cons map_Suc_upt del: upt_Suc)
  then have "sum_list (map (\<lambda>i. Suc n - Suc i) [0 ..< Suc n])
      = n + sum_list (map (\<lambda>i. n - Suc i) [0 ..< n])"
    by (simp add: comp_def del: upt_Suc)
  then show ?case using Suc by (simp add: choose_two numeral_2_eq_2 del: upt_Suc)
qed

lemma edges_loop_length: "length (edges_loop rt n) = 2 * (n choose 2)"
proof -
  have "length (edges_loop rt n) = sum_list (map (\<lambda>i. 2 * (n - Suc i)) [0 ..< n])"
    unfolding edges_loop_concat
    by (simp add: length_concat comp_def edge_pair_def Let_def sum_list_triv mult_2)
  also have "\<dots> = 2 * sum_list (map (\<lambda>i. n - Suc i) [0 ..< n])"
    by (simp add: sum_list_const_mult)
  finally show ?thesis by (simp add: sum_list_countdown)
qed

subsection \<open>Index assignment and \<open>fix_nodes\<close>\<close>


lemma fill_fill: "fill v (fill w m) = fill v m"
  by (simp add: fill_def comp_def)

lemma index_put_ok:
  assumes "\<And>i. i \<in> set idx \<Longrightarrow> 0 \<le> i \<and> i < int (length t)"
  shows "index_put t idx f =
    Inr (map (\<lambda>k. if int k \<in> set idx then f (t ! k) else t ! k) [0 ..< length t])"
proof -
  have a: "\<not> list_ex (\<lambda>i. i < - int (length t) \<or> int (length t) \<le> i) idx"
    using assms by (fastforce simp: list_ex_iff)
  have b: "map (\<lambda>i. if i < 0 then i + int (length t) else i) idx = idx"
  proof (rule map_idI)
    fix i assume "i \<in> set idx"
    then have "0 \<le> i" using assms by blast
    then show "(if i < 0 then i + int (length t) else i) = i" by simp
  qed
  show ?thesis
    unfolding index_put_def Let_def using a by (simp add: b)
qed

lemma fix_nodes_ok:
  assumes "\<And>i. i \<in> set fixed \<Longrightarrow> 0 \<le> i \<and> i < int (length prev)"
  shows "fix_nodes prev fixed =
    Inr (map (\<lambda>k. [if int k \<in> set fixed then prev ! k else fill (- 1) (prev ! k),
                    fill (if int k \<in> set fixed then 1 else 0) (prev ! k)])
           [0 ..< length prev])"
proof -
  let ?nf = "map int (filter (\<lambda>k. int k \<notin> set fixed) [0 ..< length prev])"
  let ?g = "map (\<lambda>k. if int k \<in> set ?nf then fill (- 1) (prev ! k) else prev ! k) [0 ..< length prev]"
  let ?i0 = "map (fill 0) ?g"
  let ?i1 = "map (\<lambda>k. if int k \<in> set ?nf then fill 0 (?i0 ! k) else ?i0 ! k) [0 ..< length ?i0]"
  let ?i2 = "map (\<lambda>k. if int k \<in> set fixed then fill 1 (?i1 ! k) else ?i1 ! k) [0 ..< length ?i1]"
  have nf: "\<And>i. i \<in> set ?nf \<Longrightarrow> 0 \<le> i \<and> i < int (length prev)" by auto
  have s1: "index_put prev ?nf (fill (- 1)) = Inr ?g"
    by (rule index_put_ok) (use nf in blast)
  have s2: "index_put ?i0 ?nf (fill 0) = Inr ?i1"
    by (rule index_put_ok) (use nf in simp)
  have s3: "index_put ?i1 fixed (fill 1) = Inr ?i2"
    by (rule index_put_ok) (use assms in simp)
  have "fix_nodes prev fixed = Inr (map2 (\<lambda>g i. [g, i]) ?g ?i2)"
    unfolding fix_nodes_def Let_def s1 sum.case s2 s3 ..
  also have "map2 (\<lambda>g i. [g, i]) ?g ?i2 =
     map (\<lambda>k. [if int k \<in> set fixed then prev ! k else fill (- 1) (prev ! k),
                    fill (if int k \<in> set fixed then 1 else 0) (prev ! k)])
           [0 ..< length prev]"
    by (rule nth_equalityI) (auto simp: fill_fill)
  finally show ?thesis .
qed

lemma fix_nodes_out_of_range:
  assumes "i \<in> set fixed" and "i < - int (length prev) \<or> int (length prev) \<le> i"
  shows "fix_nodes prev fixed = Inl IndexError"
proof -
  let ?nf = "map int (filter (\<lambda>k. int k \<notin> set fixed) [0 ..< length prev])"
  let ?g = "map (\<lambda>k. if int k \<in> set ?nf then fill (- 1) (prev ! k) else prev ! k) [0 ..< length prev]"
  let ?i0 = "map (fill 0) ?g"
  let ?i1 = "map (\<lambda>k. if int k \<in> set ?nf then fill 0 (?i0 ! k) else ?i0 ! k) [0 ..< length ?i0]"
  have nf: "\<And>i. i \<in> set ?nf \<Longrightarrow> 0 \<le> i \<and> i < int (length prev)" by auto
  have s1: "index_put prev ?nf (fill (- 1)) = Inr ?g"
    by (rule index_put_ok) (use nf in blast)
  have s2: "index_put ?i0 ?nf (fill 0) = Inr ?i1"
    by (rule index_put_ok) (use nf in simp)
  have "list_ex (\<lambda>i. i < - int (length ?i1) \<or> int (length ?i1) \<le> i) fixed"
    using assms by (auto simp: list_ex_iff)
  then have s3: "index_put ?i1 fixed (fill 1) = Inl IndexError"
    unfolding index_put_def Let_def by (simp only: if_True)
  show ?thesis
    unfolding fix_nodes_def Let_def s1 sum.case s2 s3 ..
qed

subsection \<open>One model invocation, the refinement loop, a whole run\<close>


lemma set_fixed_nds:
  "set (fixed_nds rn ts) = int ` {i. i < length rn \<and> rn ! i \<in> set ts}"
  by (cases ts) (auto simp: fixed_nds_def)

lemma fixed_nds_range: "i \<in> set (fixed_nds rn ts) \<Longrightarrow> 0 \<le> i \<and> i < int (length rn)"
  by (auto simp: set_fixed_nds)

lemma int_mem_fixed_nds:
  "int i \<in> set (fixed_nds rn ts) \<longleftrightarrow> i < length rn \<and> rn ! i \<in> set ts"
  by (auto simp: set_fixed_nds)

lemma infer_ok:
  assumes m: "model_ok model"
    and pm: "\<And>m. masks st = Some m \<Longrightarrow> length m = length nodes"
    and fx: "\<And>i. i \<in> set (fixed_nodes st) \<Longrightarrow> 0 \<le> i \<and> i < int (length nodes)"
  shows "\<exists>new. infer model z (nodes, edges) st = Inr new \<and> length new = length nodes"
proof -
  define prev where "prev = (case masks st of
      None \<Rightarrow> replicate (length nodes) (replicate 64 (replicate 64 (- 1 :: real)))
    | Some m \<Rightarrow> m)"
  have len: "length prev = length nodes"
    using pm by (auto simp: prev_def split: option.splits)
  obtain c where c: "fix_nodes prev (fixed_nodes st) = Inr c"
    using fix_nodes_ok[of "fixed_nodes st" prev] fx len by auto
  have "infer model z (nodes, edges) st = Inr (model z c nodes edges)"
    unfolding infer_def init_input_def Let_def prod.case prev_def[symmetric] c by simp
  then show ?thesis using m by (simp add: model_ok_def)
qed

lemma refine_loop_ok:
  assumes m: "model_ok model" and rn: "length rn = length nodes"
  shows "length cur = length nodes \<Longrightarrow>
    \<exists>fm sts. refine_loop model zs (nodes, edges) rn xs (cur, calls) = Inr (fm, calls @ sts)
      \<and> map fixed_nodes sts = map (\<lambda>x. fixed_nds rn (snd x)) xs
      \<and> list_all (\<lambda>s. masks s \<noteq> None) sts
      \<and> length fm = length nodes"
proof (induction xs arbitrary: cur calls)
  case Nil
  then show ?case by simp
next
  case (Cons x xs)
  obtain iter ts where x: "x = (iter, ts)" by (cases x)
  let ?st = "\<lparr>masks = Some cur, fixed_nodes = fixed_nds rn ts\<rparr>"
  obtain new where new: "infer model (zs (Suc iter)) (nodes, edges) ?st = Inr new"
    and len: "length new = length nodes"
    using infer_ok[OF m, of ?st nodes "zs (Suc iter)" edges] Cons.prems fixed_nds_range[of _ rn ts] rn
    by auto
  obtain fm sts where
    r: "refine_loop model zs (nodes, edges) rn xs (new, calls @ [?st]) = Inr (fm, (calls @ [?st]) @ sts)"
    and f: "map fixed_nodes sts = map (\<lambda>x. fixed_nds rn (snd x)) xs"
    and a: "list_all (\<lambda>s. masks s \<noteq> None) sts"
    and l: "length fm = length nodes"
    using Cons.IH[OF len, of "calls @ [?st]"] by blast
  have "refine_loop model zs (nodes, edges) rn (x # xs) (cur, calls) = Inr (fm, calls @ (?st # sts))"
    using r new by (simp add: x)
  moreover have "map fixed_nodes (?st # sts) = map (\<lambda>x. fixed_nds rn (snd x)) (x # xs)"
    using f by (simp add: x)
  moreover have "list_all (\<lambda>s. masks s \<noteq> None) (?st # sts)" using a by simp
  ultimately show ?case using l by blast
qed

lemma create_known:
  assumes "filter is_known rt \<noteq> []"
  shows "create_data_driven_graph rt =
    (map skip_warning (filter (\<lambda>n. \<not> is_known n) rt),
     Inr (node_tensor (map type_id (filter is_known rt)),
          (if edges_loop rt (length (filter is_known rt)) \<noteq> []
           then edges_loop rt (length (filter is_known rt)) else [(0, 1, 0)]),
          map type_id (filter is_known rt)))"
  using assms by (simp add: create_data_driven_graph_def resolve_rooms_eq Let_def)

lemma create_unknown:
  assumes "filter is_known rt = []"
  shows "create_data_driven_graph rt =
    (map skip_warning (filter (\<lambda>n. \<not> is_known n) rt),
     Inl (ValueError ''No valid room types provided''))"
  using assms by (simp add: create_data_driven_graph_def resolve_rooms_eq Let_def)

lemma map_snd_enumerate: "map (\<lambda>x. g (snd x)) (enumerate k xs) = map g xs"
  by (induction xs arbitrary: k) auto

lemma run_ok:
  assumes m: "model_ok model" and k: "filter is_known rt \<noteq> []"
  shows "\<exists>fm sts. generate_floorplan model zs rt =
      Inr ((fm, map type_id (filter is_known rt), map type_id (filter is_known rt)),
           \<lparr>masks = None, fixed_nodes = []\<rparr> # sts)
    \<and> map fixed_nodes sts =
        map (fixed_nds (map type_id (filter is_known rt)))
          (selected_types (map type_id (filter is_known rt)))
    \<and> list_all (\<lambda>s. masks s \<noteq> None) sts
    \<and> length fm = length (filter is_known rt)"
proof -
  let ?ids = "map type_id (filter is_known rt)"
  let ?nodes = "node_tensor ?ids"
  let ?edges = "if edges_loop rt (length (filter is_known rt)) \<noteq> []
           then edges_loop rt (length (filter is_known rt)) else [(0, 1, 0)]"
  let ?st = "\<lparr>masks = None, fixed_nodes = []\<rparr>"
  have nl: "length ?nodes = length ?ids" by (simp add: node_tensor_eq)
  obtain first where first: "infer model (zs 0) (?nodes, ?edges) ?st = Inr first"
    and fl: "length first = length ?nodes"
    using infer_ok[OF m, of ?st ?nodes "zs 0" ?edges] by auto
  obtain fm sts where
    r: "refine_loop model zs (?nodes, ?edges) ?ids (enumerate 0 (selected_types ?ids)) (first, [?st])
         = Inr (fm, [?st] @ sts)"
    and f: "map fixed_nodes sts = map (\<lambda>x. fixed_nds ?ids (snd x)) (enumerate 0 (selected_types ?ids))"
    and a: "list_all (\<lambda>s. masks s \<noteq> None) sts"
    and l: "length fm = length ?nodes"
    using refine_loop_ok[OF m nl[symmetric] fl, of zs ?edges "enumerate 0 (selected_types ?ids)" "[?st]"]
    by blast
  have f': "map fixed_nodes sts = map (fixed_nds ?ids) (selected_types ?ids)"
    using f by (simp add: map_snd_enumerate)
  have "generate_floorplan model zs rt = Inr ((fm, ?ids, ?ids), ?st # sts)"
    unfolding generate_floorplan_def create_known[OF k] snd_conv sum.case prod.case Let_def first r
    by simp
  then show ?thesis using f' a l nl by auto
qed

subsection \<open>The classification in closed form\<close>


lemma adj_key_sym: "adj_key a b = adj_key b a"
  by (auto simp: adj_key_def)

lemma default_iff:
  "get_default_adjacency a b = (if a = ''living_room'' \<or> b = ''living_room'' then 1 else - 1)"
  by (auto simp: get_default_adjacency_def)

lemma adj_key_cases: "adj_key a b = (if a \<le> b then (a, b) else (b, a))"
  by (simp add: adj_key_def)

lemma rules_on_sorted_keys:
  "(k, r) \<in> set REAL_ADJACENCY_RULES \<Longrightarrow> fst k \<le> snd k \<Longrightarrow>
   r = (if fst k = ''living_room'' \<or> snd k = ''living_room'' then 1 else - 1)"
  by (auto simp: REAL_ADJACENCY_RULES_def)

lemma adj_type_char:
  "adj_type a b = (if a = ''living_room'' \<or> b = ''living_room'' then 1 else - 1)"
proof (cases "adjacency_rules (adj_key a b)")
  case None
  then show ?thesis by (simp add: adj_type_def default_iff)
next
  case (Some r)
  then have "(adj_key a b, r) \<in> set REAL_ADJACENCY_RULES"
    unfolding adjacency_rules_def by (rule map_of_SomeD)
  moreover have "fst (adj_key a b) \<le> snd (adj_key a b)"
    by (auto simp: adj_key_cases)
  ultimately have "r = (if fst (adj_key a b) = ''living_room'' \<or> snd (adj_key a b) = ''living_room''
      then 1 else - 1)"
    by (rule rules_on_sorted_keys)
  then have "r = (if a = ''living_room'' \<or> b = ''living_room'' then 1 else - 1)"
    by (auto simp: adj_key_cases split: if_splits)
  then show ?thesis using Some by (simp add: adj_type_def)
qed

lemma type_id_living_room: "is_known n \<Longrightarrow> type_id n = 0 \<longleftrightarrow> n = ''living_room''"
  by (auto simp: is_known_def type_id_def room_class_def ROOM_CLASS_def split: if_splits)

subsection \<open>Claims about the classification and the edge list\<close>


lemma edges_loop_nonempty: "2 \<le> n \<Longrightarrow> edges_loop rt n \<noteq> []"
proof -
  assume "2 \<le> n"
  then have "(0, adj_type (rt ! min 0 1) (rt ! max 0 1), 1) \<in> set (edges_loop rt n)"
    by (subst edges_loop_set) simp
  then show ?thesis by auto
qed

lemma edges_loop_small: "n \<le> 1 \<Longrightarrow> edges_loop rt n = []"
proof -
  assume "n \<le> 1"
  then have "n = 0 \<or> n = 1" by auto
  then show ?thesis by (auto simp: edges_loop_def)
qed

lemma rules_respected_elsewhere:
  "((x, y), r) \<in> set REAL_ADJACENCY_RULES \<Longrightarrow> (x, y) \<noteq> (''kitchen'', ''dining room'') \<Longrightarrow>
   adj_type x y = r"
  by (auto simp: REAL_ADJACENCY_RULES_def adj_type_char)

text \<open>
  C1 (the rule table takes precedence for every pair that has an entry) does not hold of
  the code: the table maps \<open>(kitchen, dining room)\<close> to Adjacent (1), but the lookup key
  is the sorted pair \<open>(dining room, kitchen)\<close>, which is no key of the table, so the
  fallback classifies the pair as Separate (-1), in the edge list as well.
\<close>
theorem kitchen_dining_room_rule_unreached:
  "adjacency_rules (''kitchen'', ''dining room'') = Some 1
   \<and> adj_key ''kitchen'' ''dining room'' = (''dining room'', ''kitchen'')
   \<and> adjacency_rules (''dining room'', ''kitchen'') = None
   \<and> adj_type ''kitchen'' ''dining room'' = - 1
   \<and> create_data_driven_graph [''kitchen'', ''dining room''] =
       ([], Inr ([[0, 1, 0, 0, 0, 0, 0, 0, 0, 0, 0, 0, 0, 0, 0, 0, 0, 0],
                  [0, 0, 0, 0, 0, 0, 1, 0, 0, 0, 0, 0, 0, 0, 0, 0, 0, 0]],
                 [(0, - 1, 1), (1, - 1, 0)], [1, 6]))"
  by code_simp

text \<open>
  C7: the pairwise classification does not depend on the order of its two arguments:
  for all names \<open>a\<close> and \<open>b\<close> (catalog names or not) the relation computed for
  \<open>(a, b)\<close> is the relation computed for \<open>(b, a)\<close>.
\<close>
theorem adj_type_commutes: "adj_type a b = adj_type b a"
proof -
  have "get_default_adjacency a b = get_default_adjacency b a"
    by (auto simp: default_iff)
  then show ?thesis
    by (simp add: adj_type_def adj_key_sym[of a b] split: option.splits)
qed

text \<open>
  C5: for a request that resolves to \<open>n\<close> nodes, the construction returns a graph with
  \<open>n\<close> nodes; if \<open>n = 1\<close> its edge list is the single placeholder edge \<open>(0, 1, 0)\<close>;
  if \<open>n \<ge> 2\<close> the edge list has no repeated edge, has \<open>2 * C(n, 2)\<close> edges, and
  \<open>(a, r, b)\<close> is an edge exactly when \<open>a\<close> and \<open>b\<close> are distinct node indices and \<open>r\<close>
  is the one relation computed for the unordered pair, so each pair \<open>i < j\<close> has exactly
  the two mirrored edges \<open>(i, r, j)\<close> and \<open>(j, r, i)\<close>.
\<close>
theorem edge_list_shape:
  assumes "length (filter is_known rt) = n" and "1 \<le> n"
  shows "\<exists>nodes edges ids.
    snd (create_data_driven_graph rt) = Inr (nodes, edges, ids)
    \<and> length nodes = n
    \<and> (if n = 1 then edges = [(0, 1, 0)]
       else distinct edges
         \<and> length edges = 2 * (n choose 2)
         \<and> (\<forall>a r b. (a, r, b) \<in> set edges \<longleftrightarrow>
               a < n \<and> b < n \<and> a \<noteq> b \<and> r = adj_type (rt ! min a b) (rt ! max a b)))"
proof -
  have k: "filter is_known rt \<noteq> []" using assms by auto
  show ?thesis
  proof (cases "n = 1")
    case True
    then show ?thesis
      using assms by (simp add: create_known[OF k] edges_loop_small node_tensor_eq)
  next
    case False
    then have "2 \<le> n" using assms by simp
    then have "edges_loop rt n \<noteq> []" by (rule edges_loop_nonempty)
    then show ?thesis
      using assms False
      by (simp add: create_known[OF k] node_tensor_eq edges_loop_distinct edges_loop_length
          edges_loop_set)
  qed
qed

theorem edge_list_shape_witness:
  "(\<exists>nodes edges ids.
      snd (create_data_driven_graph scenario_a) = Inr (nodes, edges, ids)
      \<and> length nodes = 5 \<and> distinct edges \<and> length edges = 20
      \<and> (1, - 1, 2) \<in> set edges \<and> (2, - 1, 1) \<in> set edges
      \<and> (0, 1, 4) \<in> set edges \<and> (4, 1, 0) \<in> set edges)
   \<and> (\<exists>nodes ids. snd (create_data_driven_graph [''kitchen'']) = Inr (nodes, [(0, 1, 0)], ids))"
proof -
  have a: "length (filter is_known scenario_a) = 5"
    by code_simp
  have b: "length (filter is_known [''kitchen'']) = 1"
    by code_simp
  have c: "(5::nat) choose 2 = 10" by code_simp
  from edge_list_shape[OF a] obtain nodes edges ids where
    "snd (create_data_driven_graph scenario_a) = Inr (nodes, edges, ids)"
    "length nodes = 5" "distinct edges" "length edges = 20"
    "\<forall>a r b. (a, r, b) \<in> set edges \<longleftrightarrow>
               a < 5 \<and> b < 5 \<and> a \<noteq> b \<and> r = adj_type (scenario_a ! min a b) (scenario_a ! max a b)"
    by (auto simp: c)
  then have "\<exists>nodes edges ids.
      snd (create_data_driven_graph scenario_a) = Inr (nodes, edges, ids)
      \<and> length nodes = 5 \<and> distinct edges \<and> length edges = 20
      \<and> (1, - 1, 2) \<in> set edges \<and> (2, - 1, 1) \<in> set edges
      \<and> (0, 1, 4) \<in> set edges \<and> (4, 1, 0) \<in> set edges"
    by (simp add: adj_type_char scenario_a_def)
  moreover have "\<exists>nodes ids. snd (create_data_driven_graph [''kitchen'']) = Inr (nodes, [(0, 1, 0)], ids)"
    using edge_list_shape[OF b] by auto
  ultimately show ?thesis by blast
qed

subsection \<open>Claims about nodes, unknown names and adjacency\<close>


text \<open>
  C8 as stated fails: the catalog id of \<open>kitchen\<close> is 2, and the feature vector of a
  kitchen node has its 1.0 in column 1 and 0.0 in column 2.
\<close>

theorem kitchen_one_hot_column_counterexample:
  "room_class ''kitchen'' = Some 2
   \<and> snd (create_data_driven_graph [''kitchen'']) =
       Inr ([[0, 1, 0, 0, 0, 0, 0, 0, 0, 0, 0, 0, 0, 0, 0, 0, 0, 0]], [(0, 1, 0)], [1])
   \<and> [0, 1, 0, 0, 0, 0, 0, 0, 0, 0, 0, 0, 0, 0, 0, 0, 0, 0 :: real] ! 2 = 0
   \<and> [0, 1, 0, 0, 0, 0, 0, 0, 0, 0, 0, 0, 0, 0, 0, 0, 0, 0 :: real] ! 1 = 1"
  by code_simp

text \<open>
  C8, amended: for every request with at least one known name, the graph has one node
  per known entry, in request order; \<open>room_ids\<close> holds for each node the catalog id of
  its name minus one; and the feature vector of each node has length 18, with 1.0 in the
  column of that 0-based id and 0.0 in every other column.
\<close>

theorem nodes_one_hot:
  assumes "filter is_known rt \<noteq> []"
  shows "\<exists>nodes edges ids.
    snd (create_data_driven_graph rt) = Inr (nodes, edges, ids)
    \<and> length nodes = length (filter is_known rt)
    \<and> length ids = length (filter is_known rt)
    \<and> (\<forall>i < length (filter is_known rt).
          room_class (filter is_known rt ! i) = Some (ids ! i + 1)
          \<and> 0 \<le> ids ! i \<and> ids ! i < 18
          \<and> length (nodes ! i) = 18
          \<and> (\<forall>c < 18. nodes ! i ! c = (if int c = ids ! i then 1 else 0)))"
proof -
  let ?ks = "filter is_known rt"
  have known: "is_known (?ks ! i)" if "i < length ?ks" for i
    using nth_mem[OF that] by simp
  have row: "room_class (?ks ! i) = Some (type_id (?ks ! i) + 1)
      \<and> 0 \<le> type_id (?ks ! i) \<and> type_id (?ks ! i) < 18
      \<and> length ((replicate 18 (0::real))[nat (type_id (?ks ! i)) := 1]) = 18
      \<and> (\<forall>c < 18. (replicate 18 (0::real))[nat (type_id (?ks ! i)) := 1] ! c
            = (if int c = type_id (?ks ! i) then 1 else 0))"
    if "i < length ?ks" for i
  proof -
    have k: "is_known (?ks ! i)" using known that .
    then obtain v where v: "room_class (?ks ! i) = Some v"
      by (auto simp: is_known_def)
    have r: "0 \<le> type_id (?ks ! i)" "type_id (?ks ! i) < 17"
      using type_id_range[OF k] by auto
    have "\<forall>c < 18. (replicate 18 (0::real))[nat (type_id (?ks ! i)) := 1] ! c
            = (if int c = type_id (?ks ! i) then 1 else 0)"
      using r by (auto simp: nth_list_update)
    then show ?thesis using v r by (simp add: type_id_def)
  qed
  show ?thesis
    by (simp add: create_known[OF assms] node_tensor_eq row)
qed

theorem nodes_one_hot_witness:
  "\<exists>nodes edges ids.
    snd (create_data_driven_graph [''living_room'', ''sauna'', ''kitchen'']) = Inr (nodes, edges, ids)
    \<and> length nodes = 2 \<and> length ids = 2
    \<and> room_class ''kitchen'' = Some (ids ! 1 + 1)
    \<and> length (nodes ! 1) = 18
    \<and> nodes ! 1 ! 1 = 1 \<and> nodes ! 1 ! 2 = 0"
proof -
  have f: "filter is_known [''living_room'', ''sauna'', ''kitchen''] = [''living_room'', ''kitchen'']"
    by code_simp
  have ne: "filter is_known [''living_room'', ''sauna'', ''kitchen''] \<noteq> []"
    unfolding f by simp
  from nodes_one_hot[OF ne] obtain nodes edges ids where
    g: "snd (create_data_driven_graph [''living_room'', ''sauna'', ''kitchen'']) = Inr (nodes, edges, ids)"
    and l: "length nodes = 2" "length ids = 2"
    and a: "\<forall>i < 2. room_class ([''living_room'', ''kitchen''] ! i) = Some (ids ! i + 1)
          \<and> 0 \<le> ids ! i \<and> ids ! i < 18
          \<and> length (nodes ! i) = 18
          \<and> (\<forall>c < 18. nodes ! i ! c = (if int c = ids ! i then 1 else 0))"
    unfolding f by auto
  from a have "room_class ([''living_room'', ''kitchen''] ! 1) = Some (ids ! 1 + 1)
          \<and> 0 \<le> ids ! 1 \<and> ids ! 1 < 18
          \<and> length (nodes ! 1) = 18
          \<and> (\<forall>c < 18. nodes ! 1 ! c = (if int c = ids ! 1 then 1 else 0))"
    by (rule allE[where x = 1]) simp
  then have k: "room_class ''kitchen'' = Some (ids ! 1 + 1)" and n: "length (nodes ! 1) = 18"
    and c: "\<forall>c < 18. nodes ! 1 ! c = (if int c = ids ! 1 then 1 else 0)"
    by simp_all
  have "room_class ''kitchen'' = Some 2" by code_simp
  with k have "ids ! 1 = 1" by simp
  with c have "nodes ! 1 ! 1 = 1" "nodes ! 1 ! 2 = 0" by auto
  with g l k n show ?thesis by blast
qed

text \<open>
  C9: every unknown name of the request is dropped with one printed warning line, in
  request order, and the construction goes on; it raises the error (a \<open>ValueError\<close>),
  and returns no graph, exactly when no entry of the request is a known name; otherwise
  it returns a graph whose \<open>room_ids\<close> are those of the known entries.
\<close>

theorem unknown_names_dropped:
  "fst (create_data_driven_graph rt) = map skip_warning (filter (\<lambda>n. \<not> is_known n) rt)
   \<and> (isl (snd (create_data_driven_graph rt)) \<longleftrightarrow> filter is_known rt = [])
   \<and> (filter is_known rt = [] \<longrightarrow>
        snd (create_data_driven_graph rt) = Inl (ValueError ''No valid room types provided''))
   \<and> (filter is_known rt \<noteq> [] \<longrightarrow>
        (\<exists>nodes edges. snd (create_data_driven_graph rt) =
           Inr (nodes, edges, map type_id (filter is_known rt))))"
proof (cases "filter is_known rt = []")
  case True
  then show ?thesis by (simp add: create_unknown)
next
  case False
  then show ?thesis by (simp add: create_known)
qed

theorem unknown_names_dropped_witness:
  "fst (create_data_driven_graph [''living_room'', ''sauna'', ''kitchen'']) =
      [''Warning: Unknown room type 'sauna', skipping...'']
   \<and> (\<exists>nodes edges. snd (create_data_driven_graph [''living_room'', ''sauna'', ''kitchen'']) =
           Inr (nodes, edges, [0, 1]))
   \<and> snd (create_data_driven_graph []) = Inl (ValueError ''No valid room types provided'')
   \<and> fst (create_data_driven_graph [''sauna'']) = [''Warning: Unknown room type 'sauna', skipping...'']
   \<and> snd (create_data_driven_graph [''sauna'']) = Inl (ValueError ''No valid room types provided'')"
proof -
  have a: "is_known ''living_room''" "\<not> is_known ''sauna''" "is_known ''kitchen''"
    "type_id ''living_room'' = 0" "type_id ''kitchen'' = 1"
    "skip_warning ''sauna'' = ''Warning: Unknown room type 'sauna', skipping...''"
    by code_simp+
  show ?thesis
    using unknown_names_dropped[of "[''living_room'', ''sauna'', ''kitchen'']"]
      unknown_names_dropped[of "[]"] unknown_names_dropped[of "[''sauna'']"]
    by (simp add: a)
qed

text \<open>
  C10 as stated fails: the graph of the request \<open>[kitchen]\<close> has the placeholder edge
  \<open>(0, 1, 0)\<close>, which is Adjacent although its endpoint is a kitchen.
\<close>

theorem single_kitchen_placeholder_counterexample:
  "snd (create_data_driven_graph [''kitchen'']) =
       Inr ([[0, 1, 0, 0, 0, 0, 0, 0, 0, 0, 0, 0, 0, 0, 0, 0, 0, 0]], [(0, 1, 0)], [1])
   \<and> \<not> adjacent_iff_living_room
         ([[0, 1, 0, 0, 0, 0, 0, 0, 0, 0, 0, 0, 0, 0, 0, 0, 0, 0]], [(0, 1, 0)], [1])"
  by code_simp

text \<open>
  C10, amended: in the graph built from a request of two or more names that are all
  catalog names, every edge that does not join a kitchen and a dining room is Adjacent
  (1) if and only if at least one of its endpoints has the type \<open>living_room\<close>, and is
  Separate (-1) otherwise; the pairwise classification returns Separate for every pair
  of names neither of which is \<open>living_room\<close>, the pair kitchen and dining room apart.
\<close>

theorem adjacent_edges_living_room:
  assumes "list_all is_known rt" and "2 \<le> length rt"
  shows "(\<exists>nodes edges.
      snd (create_data_driven_graph rt) = Inr (nodes, edges, map type_id rt)
      \<and> adjacent_iff_living_room_elsewhere (nodes, edges, map type_id rt))
    \<and> (\<forall>a b. a \<noteq> ''living_room'' \<and> b \<noteq> ''living_room'' \<and> \<not> kitchen_with_dining_room a b
          \<longrightarrow> adj_type a b = - 1)"
proof -
  have f: "filter is_known rt = rt"
    using assms(1) by (simp add: list_all_iff)
  have ne: "filter is_known rt \<noteq> []" using assms(2) f by auto
  have e: "edges_loop rt (length rt) \<noteq> []"
    using assms(2) by (rule edges_loop_nonempty)
  have g: "snd (create_data_driven_graph rt) =
      Inr (node_tensor (map type_id rt), edges_loop rt (length rt), map type_id rt)"
    using create_known[OF ne] e by (simp add: f)
  have lr: "map type_id rt ! i = 0 \<longleftrightarrow> rt ! i = ''living_room''" if "i < length rt" for i
    using that assms(1) type_id_living_room[of "rt ! i"] by (simp add: list_all_length)
  have "(r = 1) = (map type_id rt ! i = 0 \<or> map type_id rt ! j = 0) \<and> (r = 1 \<or> r = - 1)"
    if "(i, r, j) \<in> set (edges_loop rt (length rt))" for i r j
  proof -
    from that have b: "i < length rt" "j < length rt"
      and r: "r = adj_type (rt ! min i j) (rt ! max i j)"
      by (simp_all add: edges_loop_set)
    show ?thesis
      using lr[OF b(1)] lr[OF b(2)] unfolding r adj_type_char
      by (auto simp: min_def max_def)
  qed
  then have "adjacent_iff_living_room_elsewhere
      (node_tensor (map type_id rt), edges_loop rt (length rt), map type_id rt)"
    by (auto simp: adjacent_iff_living_room_elsewhere_def list_all_iff)
  then show ?thesis using g by (auto simp: adj_type_char)
qed

theorem adjacent_edges_living_room_witness:
  "(\<exists>nodes edges.
      snd (create_data_driven_graph scenario_a) = Inr (nodes, edges, [0, 2, 2, 1, 3])
      \<and> adjacent_iff_living_room_elsewhere (nodes, edges, [0, 2, 2, 1, 3]))
   \<and> adj_type ''bedroom'' ''bathroom'' = - 1"
proof -
  have a: "list_all is_known scenario_a" "2 \<le> length scenario_a"
    "map type_id scenario_a = [0, 2, 2, 1, 3]"
    "\<not> kitchen_with_dining_room ''bedroom'' ''bathroom''"
    by code_simp+
  show ?thesis
    using adjacent_edges_living_room[OF a(1,2)] a(4) unfolding a(3) by simp
qed

subsection \<open>The invocations of a run; the mask encoding\<close>


lemma blank_model_ok: "model_ok blank_model"
  by (simp add: model_ok_def blank_model_def)

lemma take_Suc_upt_map:
  "f 0 # map (\<lambda>k. f (Suc k)) [0 ..< p] = map f [0 ..< Suc p]"
proof -
  have "[0 ..< Suc p] = 0 # map Suc [0 ..< p]"
    by (simp add: upt_conv_Cons map_Suc_upt del: upt_Suc)
  then show ?thesis by (simp add: comp_def del: upt_Suc)
qed

lemma fixed_nds_Nil: "fixed_nds rn [] = []"
  by (simp add: fixed_nds_def)

lemma run_calls:
  assumes m: "model_ok model" and k: "filter is_known rt \<noteq> []"
  shows "\<exists>fm sts. generate_floorplan model zs rt =
      Inr ((fm, map type_id (filter is_known rt), map type_id (filter is_known rt)),
           \<lparr>masks = None, fixed_nodes = []\<rparr> # sts)
    \<and> length sts = min 10 (card (set (map type_id (filter is_known rt))))
    \<and> list_all (\<lambda>s. masks s \<noteq> None) sts
    \<and> map fixed_nodes (\<lparr>masks = None, fixed_nodes = []\<rparr> # sts) =
        map (\<lambda>k. fixed_nds (map type_id (filter is_known rt))
                   (take k (sort (remdups (map type_id (filter is_known rt))))))
          [0 ..< Suc (min 10 (card (set (map type_id (filter is_known rt)))))]"
proof -
  define ids where "ids = map type_id (filter is_known rt)"
  define types where "types = sort (remdups ids)"
  define p where "p = min 10 (card (set ids))"
  let ?st = "\<lparr>masks = None, fixed_nodes = []\<rparr>"
  have lt: "length types = card (set ids)"
    by (simp add: types_def length_remdups_card_conv)
  obtain fm sts where
    g: "generate_floorplan model zs rt = Inr ((fm, ids, ids), ?st # sts)"
    and f: "map fixed_nodes sts = map (fixed_nds ids) (selected_types ids)"
    and a: "list_all (\<lambda>s. masks s \<noteq> None) sts"
    using run_ok[OF m k, of zs] unfolding ids_def by blast
  have "selected_types ids = map (\<lambda>k. take (Suc k) types) [0 ..< p]"
    by (simp add: selected_types_def Let_def types_def[symmetric] lt p_def)
  then have f': "map fixed_nodes sts = map (\<lambda>k. fixed_nds ids (take (Suc k) types)) [0 ..< p]"
    using f by (simp add: comp_def)
  have "length sts = length (map fixed_nodes sts)" by simp
  also have "\<dots> = p" unfolding f' by simp
  finally have l: "length sts = p" .
  have "map fixed_nodes (?st # sts) =
      fixed_nds ids (take 0 types) # map (\<lambda>k. fixed_nds ids (take (Suc k) types)) [0 ..< p]"
    using f' by (simp add: fixed_nds_Nil)
  also have "\<dots> = map (\<lambda>k. fixed_nds ids (take k types)) [0 ..< Suc p]"
    by (rule take_Suc_upt_map)
  finally have t: "map fixed_nodes (?st # sts) = map (\<lambda>k. fixed_nds ids (take k types)) [0 ..< Suc p]" .
  show ?thesis
    using g l a t unfolding ids_def[symmetric] types_def[symmetric] p_def[symmetric] by blast
qed

lemma run_fixed_trace:
  assumes m: "model_ok model" and k: "filter is_known rt \<noteq> []"
  shows "fixed_trace (generate_floorplan model zs rt) =
        map (\<lambda>k. fixed_nds (map type_id (filter is_known rt))
                   (take k (sort (remdups (map type_id (filter is_known rt))))))
          [0 ..< Suc (min 10 (card (set (map type_id (filter is_known rt)))))]"
proof -
  obtain fm sts where
    "generate_floorplan model zs rt =
      Inr ((fm, map type_id (filter is_known rt), map type_id (filter is_known rt)),
           \<lparr>masks = None, fixed_nodes = []\<rparr> # sts)"
    "map fixed_nodes (\<lparr>masks = None, fixed_nodes = []\<rparr> # sts) =
        map (\<lambda>k. fixed_nds (map type_id (filter is_known rt))
                   (take k (sort (remdups (map type_id (filter is_known rt))))))
          [0 ..< Suc (min 10 (card (set (map type_id (filter is_known rt)))))]"
    using run_calls[OF m k, of zs] by blast
  then show ?thesis by (simp add: fixed_trace_def)
qed

lemma nth_notin_take:
  assumes "distinct xs" and "k < length xs"
  shows "xs ! k \<notin> set (take k xs)"
proof
  assume "xs ! k \<in> set (take k xs)"
  then obtain j where j: "j < length (take k xs)" "take k xs ! j = xs ! k"
    by (auto simp: in_set_conv_nth)
  then have "j < k" "xs ! j = xs ! k" by auto
  then show False using assms by (auto simp: nth_eq_iff_index_eq)
qed

lemma nth_in_take_Suc: "k < length xs \<Longrightarrow> xs ! k \<in> set (take (Suc k) xs)"
  by (simp add: take_Suc_conv_app_nth)

text \<open>
  C6: when every fixed index is a node index, \<open>fix_nodes\<close> returns one entry per node,
  made of two channels: channel 0 is the prior mask of the node if the node is fixed and
  the all \<open>-1.0\<close> mask otherwise, whatever the prior mask was; channel 1 is all \<open>1.0\<close> if
  the node is fixed and all \<open>0.0\<close> otherwise.
\<close>

theorem fix_nodes_channels:
  assumes "\<forall>i \<in> set fixed. 0 \<le> i \<and> i < int (length prev)"
  shows "\<exists>out. fix_nodes prev fixed = Inr out
    \<and> length out = length prev
    \<and> (\<forall>k < length prev.
          out ! k = [if int k \<in> set fixed then prev ! k else fill (- 1) (prev ! k),
                     fill (if int k \<in> set fixed then 1 else 0) (prev ! k)])"
  using assms by (simp add: fix_nodes_ok)

theorem fix_nodes_channels_witness:
  "\<exists>out. fix_nodes [[[5, 6]], [[7, 8]], [[9, 1]]] [1] = Inr out
    \<and> length out = 3
    \<and> out ! 0 = [[[- 1, - 1]], [[0, 0]]]
    \<and> out ! 1 = [[[7, 8]], [[1, 1]]]
    \<and> out ! 2 = [[[- 1, - 1]], [[0, 0]]]"
proof -
  have h: "\<forall>i \<in> set [1 :: int]. 0 \<le> i \<and> i < int (length [[[5, 6]], [[7, 8]], [[9, 1 :: real]]])"
    by simp
  from fix_nodes_channels[OF h] obtain out where
    o: "fix_nodes [[[5, 6]], [[7, 8]], [[9, 1]]] [1] = Inr out" "length out = 3"
    and a: "\<forall>k < 3. out ! k =
        [if int k \<in> set [1] then [[[5, 6]], [[7, 8]], [[9, 1]]] ! k
         else fill (- 1) ([[[5, 6]], [[7, 8]], [[9, 1]]] ! k),
         fill (if int k \<in> set [1] then 1 else 0) ([[[5, 6]], [[7, 8]], [[9, 1]]] ! k)]"
    by auto
  have "out ! 0 = [[[- 1, - 1]], [[0, 0]]]"
    using a[rule_format, of 0] by (simp add: fill_def)
  moreover have "out ! 1 = [[[7, 8]], [[1, 1]]]"
    using a[rule_format, of 1] by (simp add: fill_def)
  moreover have "out ! 2 = [[[- 1, - 1]], [[0, 0]]]"
    using a[rule_format, of 2] by (simp add: fill_def)
  ultimately show ?thesis using o by blast
qed

subsection \<open>Claims about the pass schedule\<close>


lemma take_min_length: "take (min m (length xs)) xs = take m xs"
  by (simp add: min_def)

text \<open>
  C4 as stated fails: for the empty request no model invocation happens at all, the
  run ends with the error of the graph construction before the warm-up.
\<close>

theorem empty_request_no_warm_up_counterexample:
  "generate_floorplan blank_model no_noise [] = Inl (ValueError ''No valid room types provided'')
   \<and> fixed_trace (generate_floorplan blank_model no_noise []) = []"
  by code_simp

lemma run_unknown:
  assumes "filter is_known rt = []"
  shows "generate_floorplan model zs rt = Inl (ValueError ''No valid room types provided'')"
  unfolding generate_floorplan_def create_unknown[OF assms] by simp

text \<open>
  C4, amended: for every request with at least one known name (and a generator that
  returns one mask per node) the run returns; its first model invocation is the warm-up,
  with no prior masks and the empty fixed list, also when there is a single distinct
  type; it is followed by exactly \<open>min(10, d)\<close> refinement invocations, each with prior
  masks, where \<open>d\<close> is the number of distinct type ids of the resolved nodes. For every
  request without a known name, whatever the generator, the run ends with the error of
  the graph construction and no model invocation happens.
\<close>

theorem warm_up_then_refinement_passes:
  "(model_ok model \<and> filter is_known rt \<noteq> [] \<longrightarrow>
      (\<exists>fm sts. generate_floorplan model zs rt =
          Inr ((fm, map type_id (filter is_known rt), map type_id (filter is_known rt)),
               \<lparr>masks = None, fixed_nodes = []\<rparr> # sts)
        \<and> length sts = min 10 (card (set (map type_id (filter is_known rt))))
        \<and> list_all (\<lambda>s. masks s \<noteq> None) sts))
   \<and> (filter is_known rt = [] \<longrightarrow>
        generate_floorplan model zs rt = Inl (ValueError ''No valid room types provided'')
        \<and> fixed_trace (generate_floorplan model zs rt) = [])"
proof (intro conjI impI)
  assume h: "model_ok model \<and> filter is_known rt \<noteq> []"
  then have m: "model_ok model" and k: "filter is_known rt \<noteq> []" by simp_all
  show "\<exists>fm sts. generate_floorplan model zs rt =
          Inr ((fm, map type_id (filter is_known rt), map type_id (filter is_known rt)),
               \<lparr>masks = None, fixed_nodes = []\<rparr> # sts)
        \<and> length sts = min 10 (card (set (map type_id (filter is_known rt))))
        \<and> list_all (\<lambda>s. masks s \<noteq> None) sts"
    using run_calls[OF m k, of zs] by blast
next
  assume u: "filter is_known rt = []"
  show "generate_floorplan model zs rt = Inl (ValueError ''No valid room types provided'')"
    using u by (rule run_unknown)
  then show "fixed_trace (generate_floorplan model zs rt) = []"
    by (simp add: fixed_trace_def)
qed

theorem warm_up_then_refinement_passes_witness:
  "(\<exists>fm sts. generate_floorplan blank_model no_noise scenario_a =
      Inr ((fm, [0, 2, 2, 1, 3], [0, 2, 2, 1, 3]), \<lparr>masks = None, fixed_nodes = []\<rparr> # sts)
    \<and> length sts = 4
    \<and> list_all (\<lambda>s. masks s \<noteq> None) sts)
   \<and> (\<exists>fm sts. generate_floorplan blank_model no_noise [''kitchen''] =
      Inr ((fm, [1], [1]), \<lparr>masks = None, fixed_nodes = []\<rparr> # sts)
    \<and> length sts = 1
    \<and> list_all (\<lambda>s. masks s \<noteq> None) sts)
   \<and> generate_floorplan blank_model no_noise [''sauna'', ''gym''] =
        Inl (ValueError ''No valid room types provided'')
   \<and> fixed_trace (generate_floorplan blank_model no_noise [''sauna'', ''gym'']) = []"
proof -
  have a: "filter is_known scenario_a \<noteq> []" "map type_id (filter is_known scenario_a) = [0, 2, 2, 1, 3]"
    "min 10 (card (set [0, 2, 2, 1, 3 :: int])) = 4"
    "filter is_known [''kitchen''] \<noteq> []" "map type_id (filter is_known [''kitchen'']) = [1]"
    "min 10 (card (set [1 :: int])) = 1"
    by code_simp+
  have u: "filter is_known [''sauna'', ''gym''] = []"
    by code_simp
  have w1: "\<exists>fm sts. generate_floorplan blank_model no_noise scenario_a =
      Inr ((fm, [0, 2, 2, 1, 3], [0, 2, 2, 1, 3]), \<lparr>masks = None, fixed_nodes = []\<rparr> # sts)
    \<and> length sts = 4
    \<and> list_all (\<lambda>s. masks s \<noteq> None) sts"
    using warm_up_then_refinement_passes[of blank_model scenario_a no_noise,
        THEN conjunct1, rule_format, OF conjI[OF blank_model_ok a(1)]]
    unfolding a .
  have w2: "\<exists>fm sts. generate_floorplan blank_model no_noise [''kitchen''] =
      Inr ((fm, [1], [1]), \<lparr>masks = None, fixed_nodes = []\<rparr> # sts)
    \<and> length sts = 1
    \<and> list_all (\<lambda>s. masks s \<noteq> None) sts"
    using warm_up_then_refinement_passes[of blank_model "[''kitchen'']" no_noise,
        THEN conjunct1, rule_format, OF conjI[OF blank_model_ok a(4)]]
    unfolding a .
  have w3: "generate_floorplan blank_model no_noise [''sauna'', ''gym''] =
        Inl (ValueError ''No valid room types provided'')
      \<and> fixed_trace (generate_floorplan blank_model no_noise [''sauna'', ''gym'']) = []"
    using warm_up_then_refinement_passes[of blank_model "[''sauna'', ''gym'']" no_noise,
        THEN conjunct2, rule_format, OF u] .
  show ?thesis using w1 w2 w3 by blast
qed

text \<open>
  C2 as stated fails: a request with eleven distinct types has eleven nodes, but the
  last refinement pass is the tenth and fixes the nodes 0 to 9 only.
\<close>

theorem eleven_types_last_pass_counterexample:
  "fst (resolve_rooms eleven_rooms) = [0, 1, 2, 3, 4, 5, 6, 7, 9, 14, 15]
   \<and> fixed_trace (generate_floorplan blank_model no_noise eleven_rooms) =
       [[], [0], [0, 1], [0, 1, 2], [0, 1, 2, 3], [0, 1, 2, 3, 4], [0, 1, 2, 3, 4, 5],
        [0, 1, 2, 3, 4, 5, 6], [0, 1, 2, 3, 4, 5, 6, 7], [0, 1, 2, 3, 4, 5, 6, 7, 8],
        [0, 1, 2, 3, 4, 5, 6, 7, 8, 9]]
   \<and> 10 \<notin> set (last (fixed_trace (generate_floorplan blank_model no_noise eleven_rooms)))"
  by code_simp

text \<open>
  C2, amended: over one run on a request with at least one known name (and a generator
  that returns one mask per node), the fixed index sets handed to the model, warm-up
  first, grow monotonically by inclusion; the fixed set of the last refinement pass is
  the set of the nodes whose type is among the ten smallest distinct type ids, and it is
  the full set of node indices exactly when there are at most ten distinct type ids.
\<close>

theorem fixed_sets_monotone:
  assumes "model_ok model" and "filter is_known rt \<noteq> []"
  shows "(\<exists>res calls. generate_floorplan model zs rt = Inr (res, calls))
    \<and> length (fixed_trace (generate_floorplan model zs rt)) =
        Suc (min 10 (card (set (map type_id (filter is_known rt)))))
    \<and> (\<forall>j < length (fixed_trace (generate_floorplan model zs rt)). \<forall>i \<le> j.
          set (fixed_trace (generate_floorplan model zs rt) ! i)
            \<subseteq> set (fixed_trace (generate_floorplan model zs rt) ! j))
    \<and> set (last (fixed_trace (generate_floorplan model zs rt))) =
        int ` {i. i < length (filter is_known rt)
                 \<and> map type_id (filter is_known rt) ! i
                     \<in> set (take 10 (sort (remdups (map type_id (filter is_known rt)))))}
    \<and> (set (last (fixed_trace (generate_floorplan model zs rt))) =
          int ` {0 ..< length (filter is_known rt)}
        \<longleftrightarrow> card (set (map type_id (filter is_known rt))) \<le> 10)"
proof -
  define ids where "ids = map type_id (filter is_known rt)"
  define types where "types = sort (remdups ids)"
  define p where "p = min 10 (card (set ids))"
  define F where "F = fixed_trace (generate_floorplan model zs rt)"
  have n: "length (filter is_known rt) = length ids" by (simp add: ids_def)
  have lt: "length types = card (set ids)"
    by (simp add: types_def length_remdups_card_conv)
  have st: "set types = set ids" and dt: "distinct types"
    by (simp_all add: types_def)
  have F: "F = map (\<lambda>k. fixed_nds ids (take k types)) [0 ..< Suc p]"
    unfolding F_def ids_def types_def p_def by (rule run_fixed_trace[OF assms])
  have ret: "\<exists>res calls. generate_floorplan model zs rt = Inr (res, calls)"
    using run_calls[OF assms, of zs] by blast
  have len: "length F = Suc p" by (simp add: F)
  have nth: "F ! k = fixed_nds ids (take k types)" if "k < Suc p" for k
    unfolding F using that by (simp del: upt_Suc)
  have mono: "\<forall>j < length F. \<forall>i \<le> j. set (F ! i) \<subseteq> set (F ! j)"
  proof (intro allI impI)
    fix j i assume j: "j < length F" and i: "i \<le> j"
    have "set (take i types) \<subseteq> set (take j types)"
      using i by (rule set_take_subset_set_take)
    then have "set (fixed_nds ids (take i types)) \<subseteq> set (fixed_nds ids (take j types))"
      by (auto simp: set_fixed_nds)
    then show "set (F ! i) \<subseteq> set (F ! j)"
      using j i by (simp add: nth len)
  qed
  have "F \<noteq> []" using len by auto
  then have "last F = F ! p" using len by (simp add: last_conv_nth)
  also have "\<dots> = fixed_nds ids (take p types)" by (simp add: nth)
  also have "take p types = take 10 types"
    unfolding p_def lt[symmetric] by (rule take_min_length)
  finally have last: "last F = fixed_nds ids (take 10 types)" .
  have lastset: "set (last F) = int ` {i. i < length ids \<and> ids ! i \<in> set (take 10 types)}"
    by (simp add: last set_fixed_nds)
  have full: "set (last F) = int ` {0 ..< length ids} \<longleftrightarrow> card (set ids) \<le> 10"
  proof
    assume c: "card (set ids) \<le> 10"
    then have "take 10 types = types" using lt by simp
    then have "{i. i < length ids \<and> ids ! i \<in> set (take 10 types)} = {0 ..< length ids}"
      using st by auto
    then show "set (last F) = int ` {0 ..< length ids}" by (simp add: lastset)
  next
    assume e: "set (last F) = int ` {0 ..< length ids}"
    show "card (set ids) \<le> 10"
    proof (rule ccontr)
      assume "\<not> card (set ids) \<le> 10"
      then have l: "10 < length types" using lt by simp
      then have "types ! 10 \<in> set ids" using st nth_mem by blast
      then obtain i where i: "i < length ids" "ids ! i = types ! 10"
        by (auto simp: in_set_conv_nth)
      have "types ! 10 \<notin> set (take 10 types)"
        using dt l by (rule nth_notin_take)
      then have "int i \<notin> set (last F)" using i by (simp add: last int_mem_fixed_nds)
      moreover have "int i \<in> int ` {0 ..< length ids}" using i by simp
      ultimately show False using e by simp
    qed
  qed
  show ?thesis
    using ret len mono lastset full
    unfolding F_def p_def types_def n ids_def by blast
qed

theorem fixed_sets_monotone_witness:
  "(\<exists>res calls. generate_floorplan blank_model no_noise scenario_a = Inr (res, calls))
   \<and> length (fixed_trace (generate_floorplan blank_model no_noise scenario_a)) = 5
   \<and> set (fixed_trace (generate_floorplan blank_model no_noise scenario_a) ! 1)
       \<subseteq> set (fixed_trace (generate_floorplan blank_model no_noise scenario_a) ! 3)
   \<and> set (last (fixed_trace (generate_floorplan blank_model no_noise scenario_a))) = int ` {0 ..< 5}"
proof -
  have a: "filter is_known scenario_a \<noteq> []"
    "card (set (map type_id (filter is_known scenario_a))) = 4"
    "length (filter is_known scenario_a) = 5"
    by code_simp+
  note t = fixed_sets_monotone[OF blank_model_ok a(1), of no_noise, unfolded a(2,3)]
  from t have l: "length (fixed_trace (generate_floorplan blank_model no_noise scenario_a)) = 5"
    by simp
  from t l have "set (fixed_trace (generate_floorplan blank_model no_noise scenario_a) ! 1)
       \<subseteq> set (fixed_trace (generate_floorplan blank_model no_noise scenario_a) ! 3)"
    by simp
  moreover from t have
    "(set (last (fixed_trace (generate_floorplan blank_model no_noise scenario_a))) = int ` {0 ..< 5})
      = ((4::nat) \<le> 10)"
    by blast
  then have
    "set (last (fixed_trace (generate_floorplan blank_model no_noise scenario_a))) = int ` {0 ..< 5}"
    by simp
  ultimately show ?thesis using t l by blast
qed

subsection \<open>Claims about repeated types\<close>


text \<open>
  C3: in a run (request with at least one known name, generator returning one mask per
  node), \<open>calls ! 0\<close> is the warm-up and \<open>calls ! Suc k\<close> the refinement pass \<open>k\<close>, the
  pass at which the distinct type id \<open>sort (remdups ids) ! k\<close> enters the prefix. Every
  node of that type is in the fixed list of pass \<open>k\<close> and not in the fixed list of the
  invocation before it; and at every invocation two nodes of the same type are either
  both fixed or both not fixed, so never only part of the instances of a repeated type
  is fixed.
\<close>

theorem same_type_fixed_together:
  assumes "model_ok model" and "filter is_known rt \<noteq> []"
  shows "\<exists>fm ids calls.
    generate_floorplan model zs rt = Inr ((fm, ids, ids), calls)
    \<and> ids = map type_id (filter is_known rt)
    \<and> length calls = Suc (min 10 (card (set ids)))
    \<and> (\<forall>k i. Suc k < length calls \<and> i < length ids \<and> ids ! i = sort (remdups ids) ! k \<longrightarrow>
          int i \<in> set (fixed_nodes (calls ! Suc k)) \<and> int i \<notin> set (fixed_nodes (calls ! k)))
    \<and> (\<forall>k i j. k < length calls \<and> i < length ids \<and> j < length ids \<and> ids ! i = ids ! j \<longrightarrow>
          (int i \<in> set (fixed_nodes (calls ! k)) \<longleftrightarrow> int j \<in> set (fixed_nodes (calls ! k))))"
proof -
  define ids where "ids = map type_id (filter is_known rt)"
  define types where "types = sort (remdups ids)"
  define p where "p = min 10 (card (set ids))"
  have lt: "length types = card (set ids)"
    by (simp add: types_def length_remdups_card_conv)
  have dt: "distinct types" by (simp add: types_def)
  obtain fm sts where g: "generate_floorplan model zs rt =
      Inr ((fm, ids, ids), \<lparr>masks = None, fixed_nodes = []\<rparr> # sts)"
    and l: "length sts = p"
    and t: "map fixed_nodes (\<lparr>masks = None, fixed_nodes = []\<rparr> # sts) =
        map (\<lambda>k. fixed_nds ids (take k types)) [0 ..< Suc p]"
    using run_calls[OF assms, of zs] unfolding ids_def types_def p_def by blast
  define calls where "calls = \<lparr>masks = None, fixed_nodes = []\<rparr> # sts"
  have len: "length calls = Suc p" by (simp add: calls_def l)
  have fx: "fixed_nodes (calls ! k) = fixed_nds ids (take k types)" if "k < Suc p" for k
  proof -
    have "fixed_nodes (calls ! k) = map fixed_nodes calls ! k"
      using that len by simp
    also have "\<dots> = fixed_nds ids (take k types)"
      unfolding calls_def t using that by (simp del: upt_Suc)
    finally show ?thesis .
  qed
  have enter: "int i \<in> set (fixed_nodes (calls ! Suc k)) \<and> int i \<notin> set (fixed_nodes (calls ! k))"
    if "Suc k < length calls" "i < length ids" "ids ! i = types ! k" for k i
  proof -
    have k: "k < length types" using that(1) len lt by (simp add: p_def)
    have "types ! k \<in> set (take (Suc k) types)" using k by (rule nth_in_take_Suc)
    moreover have "types ! k \<notin> set (take k types)" using dt k by (rule nth_notin_take)
    ultimately show ?thesis
      using that len by (simp add: fx int_mem_fixed_nds)
  qed
  have together: "int i \<in> set (fixed_nodes (calls ! k)) \<longleftrightarrow> int j \<in> set (fixed_nodes (calls ! k))"
    if "k < length calls" "i < length ids" "j < length ids" "ids ! i = ids ! j" for k i j
    using that len by (simp add: fx int_mem_fixed_nds)
  have c1: "generate_floorplan model zs rt = Inr ((fm, ids, ids), calls)"
    using g by (simp add: calls_def)
  have c3: "length calls = Suc (min 10 (card (set ids)))"
    using len by (simp add: p_def)
  have c4: "\<forall>k i. Suc k < length calls \<and> i < length ids \<and> ids ! i = sort (remdups ids) ! k \<longrightarrow>
          int i \<in> set (fixed_nodes (calls ! Suc k)) \<and> int i \<notin> set (fixed_nodes (calls ! k))"
    using enter unfolding types_def by blast
  have c5: "\<forall>k i j. k < length calls \<and> i < length ids \<and> j < length ids \<and> ids ! i = ids ! j \<longrightarrow>
          (int i \<in> set (fixed_nodes (calls ! k)) \<longleftrightarrow> int j \<in> set (fixed_nodes (calls ! k)))"
    using together by blast
  show ?thesis
    by (intro exI[of _ fm] exI[of _ ids] exI[of _ calls] conjI c1 ids_def c3 c4 c5)
qed

theorem same_type_fixed_together_witness:
  "\<exists>fm calls.
    generate_floorplan blank_model no_noise scenario_a = Inr ((fm, [0, 2, 2, 1, 3], [0, 2, 2, 1, 3]), calls)
    \<and> length calls = 5
    \<and> 1 \<in> set (fixed_nodes (calls ! 3)) \<and> 2 \<in> set (fixed_nodes (calls ! 3))
    \<and> 1 \<notin> set (fixed_nodes (calls ! 2)) \<and> 2 \<notin> set (fixed_nodes (calls ! 2))"
proof -
  have a: "filter is_known scenario_a \<noteq> []"
    "map type_id (filter is_known scenario_a) = [0, 2, 2, 1, 3]"
    "Suc (min 10 (card (set [0, 2, 2, 1, 3 :: int]))) = 5"
    "sort (remdups [0, 2, 2, 1, 3 :: int]) = [0, 1, 2, 3]"
    by code_simp+
  from same_type_fixed_together[OF blank_model_ok a(1), of no_noise]
  obtain fm ids calls where
    g: "generate_floorplan blank_model no_noise scenario_a = Inr ((fm, ids, ids), calls)"
    and i: "ids = [0, 2, 2, 1, 3]"
    and l: "length calls = Suc (min 10 (card (set ids)))"
    and e: "\<forall>k i. Suc k < length calls \<and> i < length ids \<and> ids ! i = sort (remdups ids) ! k \<longrightarrow>
          int i \<in> set (fixed_nodes (calls ! Suc k)) \<and> int i \<notin> set (fixed_nodes (calls ! k))"
    unfolding a(2) by blast
  have l5: "length calls = 5" using l unfolding i a(3) .
  have s: "sort (remdups ids) = [0, 1, 2, 3]" unfolding i a(4) ..
  have three: "Suc 2 = 3" by simp
  have c1: "Suc 2 < length calls \<and> 1 < length ids \<and> ids ! 1 = sort (remdups ids) ! 2"
    unfolding s l5 by (simp add: i)
  have c2: "Suc 2 < length calls \<and> 2 < length ids \<and> ids ! 2 = sort (remdups ids) ! 2"
    unfolding s l5 by (simp add: i)
  have r1: "int 1 \<in> set (fixed_nodes (calls ! 3)) \<and> int 1 \<notin> set (fixed_nodes (calls ! 2))"
    using e[rule_format, OF c1] unfolding three .
  have r2: "int 2 \<in> set (fixed_nodes (calls ! 3)) \<and> int 2 \<notin> set (fixed_nodes (calls ! 2))"
    using e[rule_format, OF c2] unfolding three .
  have "generate_floorplan blank_model no_noise scenario_a =
      Inr ((fm, [0, 2, 2, 1, 3], [0, 2, 2, 1, 3]), calls)
    \<and> length calls = 5
    \<and> 1 \<in> set (fixed_nodes (calls ! 3)) \<and> 2 \<in> set (fixed_nodes (calls ! 3))
    \<and> 1 \<notin> set (fixed_nodes (calls ! 2)) \<and> 2 \<notin> set (fixed_nodes (calls ! 2))"
    using g[unfolded i] l5 r1 r2 by simp
  then show ?thesis by blast
qed

end
